theory Spec2Isabelle
  imports Main "HOL-Library.Word"
begin

section \<open>JavaScript values used by the application\<close>

text \<open>
  A JavaScript string is a sequence of UTF-16 code units.  String literals of the source
  are written \<open>js ''...''\<close>; all literals of the source are ASCII.
\<close>

type_synonym jschar = "16 word"
type_synonym jsstring = "jschar list"

definition js :: "string \<Rightarrow> jsstring" where
  "js s = map of_char s"

definition comma :: jschar where "comma = 0x2C"
definition colon :: jschar where "colon = 0x3A"
definition semicolon :: jschar where "semicolon = 0x3B"

text \<open>
  Truthiness of a value of type \<open>string | null | undefined\<close>: absent values and the
  empty string are falsy.
\<close>

definition truthy :: "jsstring option \<Rightarrow> bool" where
  "truthy v = (case v of None \<Rightarrow> False | Some s \<Rightarrow> s \<noteq> [])"

text \<open>
  \<open>s.split(sep)\<close> for a one-code-unit separator: the segments between the
  occurrences of \<open>sep\<close>, in order; the result always has at least one segment.
\<close>

fun split :: "'a \<Rightarrow> 'a list \<Rightarrow> 'a list list" where
  "split sep [] = [[]]"
| "split sep (c # cs) =
     (if c = sep then [] # split sep cs
      else (case split sep cs of [] \<Rightarrow> [[c]] | w # ws \<Rightarrow> (c # w) # ws))"

text \<open>Array indexing \<open>a[i]\<close>: \<open>undefined\<close> (here \<open>None\<close>) out of range.\<close>

fun index :: "'a list \<Rightarrow> nat \<Rightarrow> 'a option" where
  "index [] i = None"
| "index (x # xs) 0 = Some x"
| "index (x # xs) (Suc i) = index xs i"

text \<open>
  \<open>String.prototype.trim\<close> removes leading and trailing white space and line
  terminators (ECMAScript \<open>WhiteSpace\<close> and \<open>LineTerminator\<close>; all of them are single
  code units).
\<close>

definition is_ws :: "jschar \<Rightarrow> bool" where
  "is_ws c \<longleftrightarrow>
     c \<in> {0x0009, 0x000A, 0x000B, 0x000C, 0x000D, 0x0020, 0x00A0, 0x1680,
          0x2000, 0x2001, 0x2002, 0x2003, 0x2004, 0x2005, 0x2006, 0x2007, 0x2008,
          0x2009, 0x200A, 0x2028, 0x2029, 0x202F, 0x205F, 0x3000, 0xFEFF}"

definition trim :: "jsstring \<Rightarrow> jsstring" where
  "trim s = rev (dropWhile is_ws (rev (dropWhile is_ws s)))"

text \<open>A substitution \<open>${v}\<close> in a template literal; \<open>undefined\<close> prints as such.\<close>

definition subst :: "jsstring option \<Rightarrow> jsstring" where
  "subst v = (case v of None \<Rightarrow> js ''undefined'' | Some s \<Rightarrow> s)"

text \<open>
  Thrown values: \<open>new Error(msg)\<close>, the engine's \<open>TypeError\<close> for a property read on
  \<open>undefined\<close> (\<open>undefined_split\<close> below carries the message V8 gives it), and whatever
  the transport of the external endpoint throws (with its \<open>message\<close> property, if it
  has one).
\<close>

datatype js_error = Error jsstring | TypeError jsstring | Thrown "jsstring option"

fun message :: "js_error \<Rightarrow> jsstring option" where
  "message (Error m) = Some m"
| "message (TypeError m) = Some m"
| "message (Thrown m) = m"

definition undefined_split :: js_error where
  "undefined_split = TypeError (js ''Cannot read properties of undefined (reading 'split')'')"


section \<open>The Generation Client (services/gemini.ts)\<close>

text \<open>
  Modelled from the spec: the request and response types of the external SDK, whose
  declarations are not part of the sources.  A part may carry text and inline data; a
  content is an ordered list of parts; a response has zero or more candidates, each with
  a content.  Fields the source guards against being absent (\<open>candidates\<close>, \<open>parts\<close>,
  \<open>inlineData\<close>) are optional, and so are the two fields of the inline data, since the
  source itself may leave \<open>data\<close> undefined when it builds a request.
\<close>

record blob =
  data :: "jsstring option"
  mimeType :: "jsstring option"

record part =
  text' :: "jsstring option"
  inlineData :: "blob option"

record content =
  parts :: "part list option"

record candidate =
  content :: content

record response =
  candidates :: "candidate list option"

record request =
  model :: jsstring
  contents :: content

text \<open>
  The external endpoint \<open>ai.models.generateContent\<close> is a parameter: for a request it
  either throws or returns a response.
\<close>

type_synonym endpoint = "request \<Rightarrow> js_error + response"

text \<open>Lines 6-17 of \<open>generateImage\<close>: the parts contributed by the base image.\<close>

definition baseImageParts :: "jsstring option \<Rightarrow> js_error + part list" where
  "baseImageParts baseImage =
     (case baseImage of
        None \<Rightarrow> Inr []
      | Some b \<Rightarrow>
          if b = [] then Inr []
          else
            (let segs = split comma b in
             case index segs 0 of
               None \<Rightarrow> Inl undefined_split
             | Some prefix \<Rightarrow>
                 (case index (split colon prefix) 1 of
                    None \<Rightarrow> Inl undefined_split
                  | Some m \<Rightarrow>
                      Inr [\<lparr>text' = None,
                            inlineData = Some \<lparr>data = index segs 1,
                                                mimeType = index (split semicolon m) 0\<rparr>\<rparr>])))"

text \<open>Lines 35-39: the loop over the parts returns at the first part with inline data.\<close>

fun firstInline :: "part list \<Rightarrow> jsstring option" where
  "firstInline [] = None"
| "firstInline (p # ps) =
     (case inlineData p of
        Some b \<Rightarrow> Some (js ''data:'' @ subst (mimeType b) @ js '';base64,'' @ subst (data b))
      | None \<Rightarrow> firstInline ps)"

text \<open>Lines 30-41: what is made of a response.\<close>

definition extractImage :: "response \<Rightarrow> js_error + jsstring" where
  "extractImage r =
     (case candidates r of
        None \<Rightarrow> Inl (Error (js ''No candidates returned''))
      | Some [] \<Rightarrow> Inl (Error (js ''No candidates returned''))
      | Some (c # _) \<Rightarrow>
          (case firstInline (case parts (content c) of None \<Rightarrow> [] | Some ps \<Rightarrow> ps) of
             Some url \<Rightarrow> Inr url
           | None \<Rightarrow> Inl (Error (js ''No image found in the response''))))"

text \<open>
  \<open>generateImage\<close>.  The first component of the result is the list of requests submitted
  to the endpoint, the second what the call throws (\<open>Inl\<close>) or returns (\<open>Inr\<close>).
\<close>

definition generateImage ::
  "endpoint \<Rightarrow> jsstring \<Rightarrow> jsstring option \<Rightarrow> request list \<times> (js_error + jsstring)" where
  "generateImage api prompt baseImage =
     (case baseImageParts baseImage of
        Inl e \<Rightarrow> ([], Inl e)
      | Inr ps \<Rightarrow>
          (let req = \<lparr>model = js ''gemini-2.5-flash-image'',
                      contents = \<lparr>parts = Some (ps @ [\<lparr>text' = Some prompt, inlineData = None\<rparr>])\<rparr>\<rparr>
           in case api req of
                Inl e \<Rightarrow> ([req], Inl e)
              | Inr r \<Rightarrow> ([req], extractImage r)))"

text \<open>The names the specification gives to the two errors the client raises itself.\<close>

definition NoCandidatesError :: js_error where
  "NoCandidatesError = Error (js ''No candidates returned'')"

definition NoImageInResponseError :: js_error where
  "NoImageInResponseError = Error (js ''No image found in the response'')"


section \<open>The application state (the component \<open>App\<close>)\<close>

text \<open>
  \<open>Date.now()\<close> is an integer number of milliseconds and is an input of the model.
  \<open>Number.prototype.toString\<close> prints such an integer in decimal, with a leading minus
  sign when it is negative (every value \<open>Date.now()\<close> can return is far below the
  magnitude at which the exponent notation starts).
\<close>

definition digit :: "nat \<Rightarrow> jschar" where
  "digit d = of_nat (48 + d)"

fun digits :: "nat \<Rightarrow> jsstring" where
  "digits n =
     (if n < 10 then [digit n]
      else digits (n div 10) @ [digit (n mod 10)])"

declare digits.simps [simp del]

definition toString :: "int \<Rightarrow> jsstring" where
  "toString i = (if i < 0 then 0x2D # digits (nat (- i)) else digits (nat i))"

text \<open>
  Modelled from the spec: the interface \<open>DesignIteration\<close> of \<open>types.ts\<close>, which is not
  part of the sources: an id, the encoded image, the prompt, an integer timestamp and
  an optional parent reference.
\<close>

record DesignIteration =
  id' :: jsstring
  imageUrl :: jsstring
  prompt :: jsstring
  timestamp :: int
  parentId :: "jsstring option"

text \<open>
  The six state cells of \<open>App\<close> (lines 20-25).  The cell \<open>prompt\<close> is named \<open>prompt'\<close>
  here, the field of an iteration having the same name.
\<close>

record app_state =
  sourceImage :: "jsstring option"
  iterations :: "DesignIteration list"
  activeId :: "jsstring option"
  prompt' :: jsstring
  isGenerating :: bool
  error :: "jsstring option"

definition initial :: app_state where
  "initial = \<lparr>sourceImage = None, iterations = [], activeId = None, prompt' = [],
              isGenerating = False, error = None\<rparr>"

text \<open>The \<open>onload\<close> callback of \<open>handleImageUpload\<close> (lines 34-38).\<close>

definition onload :: "jsstring \<Rightarrow> app_state \<Rightarrow> app_state" where
  "onload dataUrl s = s\<lparr>sourceImage := Some dataUrl, activeId := Some (js ''source'')\<rparr>"

text \<open>\<open>clearSourceImage\<close> (lines 47-52).\<close>

definition clearSourceImage :: "app_state \<Rightarrow> app_state" where
  "clearSourceImage s =
     (if activeId s = Some (js ''source'')
      then s\<lparr>sourceImage := None,
              activeId := (case iterations s of [] \<Rightarrow> None | it # _ \<Rightarrow> Some (id' it))\<rparr>
      else s\<lparr>sourceImage := None\<rparr>)"

text \<open>Lines 64-74 of \<open>handleGenerate\<close>: the base image handed to the client.\<close>

definition baseImageFor :: "app_state \<Rightarrow> jsstring option" where
  "baseImageFor s =
     (if activeId s = Some (js ''source'') \<and> truthy (sourceImage s) then sourceImage s
      else if truthy (activeId s) then
        (case activeId s of
           None \<Rightarrow> None
         | Some a \<Rightarrow>
             (case find (\<lambda>i. id' i = a) (iterations s) of
                Some activeIteration \<Rightarrow> Some (imageUrl activeIteration)
              | None \<Rightarrow> None))
      else if truthy (sourceImage s) then sourceImage s
      else None)"

text \<open>
  \<open>handleGenerate\<close> suspends at \<open>await generateImage(prompt, baseImage)\<close>.  What runs
  before the suspension is \<open>handleGenerate_start\<close>; it returns the state and, when the
  client has been invoked, the call that is outstanding: the arguments given to the
  client, and the \<open>activeId\<close> the continuation reads (the continuation sees the values
  of \<open>prompt\<close> and \<open>activeId\<close> of the render in which the handler was started).
\<close>

record call =
  callPrompt :: jsstring
  callBaseImage :: "jsstring option"
  callActiveId :: "jsstring option"

definition handleGenerate_start :: "app_state \<Rightarrow> app_state \<times> call option" where
  "handleGenerate_start s =
     (if trim (prompt' s) = [] then (s\<lparr>error := Some (js ''Please enter a prompt.'')\<rparr>, None)
      else (s\<lparr>isGenerating := True, error := None\<rparr>,
            Some \<lparr>callPrompt = prompt' s, callBaseImage = baseImageFor s,
                  callActiveId = activeId s\<rparr>))"

text \<open>
  What runs when the client's promise settles (lines 76-93), on the state of that moment:
  \<open>setIterations\<close> is given an updater function, so the new iteration is put in front of
  the list as it is then.  \<open>t1\<close> and \<open>t2\<close> are the two readings of \<open>Date.now()\<close>.
\<close>

definition handleGenerate_finish ::
  "endpoint \<Rightarrow> int \<Rightarrow> int \<Rightarrow> call \<Rightarrow> app_state \<Rightarrow> app_state" where
  "handleGenerate_finish api t1 t2 c s =
     (case snd (generateImage api (callPrompt c) (callBaseImage c)) of
        Inr newImageUrl \<Rightarrow>
          (let newIteration =
                 \<lparr>id' = toString t1, imageUrl = newImageUrl, prompt = callPrompt c,
                  timestamp = t2,
                  parentId = (if truthy (callActiveId c) then callActiveId c else None)\<rparr>
           in s\<lparr>iterations := newIteration # iterations s,
                 activeId := Some (id' newIteration),
                 isGenerating := False\<rparr>)
      | Inl err \<Rightarrow>
          s\<lparr>error := Some (case message err of
                              None \<Rightarrow> js ''Failed to generate image.''
                            | Some m \<Rightarrow> if m = [] then js ''Failed to generate image.'' else m),
             isGenerating := False\<rparr>)"

text \<open>A call of \<open>handleGenerate\<close> during which nothing else happens.\<close>

definition handleGenerate ::
  "endpoint \<Rightarrow> int \<Rightarrow> int \<Rightarrow> app_state \<Rightarrow> call option \<times> app_state" where
  "handleGenerate api t1 t2 s =
     (case handleGenerate_start s of
        (s', None) \<Rightarrow> (None, s')
      | (s', Some c) \<Rightarrow> (Some c, handleGenerate_finish api t1 t2 c s'))"

text \<open>\<open>activeImageUrl\<close> (lines 96-98).\<close>

definition activeImageUrl :: "app_state \<Rightarrow> jsstring option" where
  "activeImageUrl s =
     (if activeId s = Some (js ''source'') then sourceImage s
      else
        (case (case activeId s of
                 None \<Rightarrow> None
               | Some a \<Rightarrow> find (\<lambda>i. id' i = a) (iterations s)) of
           None \<Rightarrow> sourceImage s
         | Some i \<Rightarrow> if imageUrl i \<noteq> [] then Some (imageUrl i) else sourceImage s))"


section \<open>Runs of the application\<close>

text \<open>
  The application together with the calls of the client that are outstanding.  An event
  is one of the callbacks the component installs: the upload's \<open>onload\<close>, the Clear
  button, the two kinds of thumbnails (\<open>setActiveId\<close> with \<open>'source'\<close> or with the id of
  the iteration at a position of the list), the prompt field, the Generate button, and
  the settling of an outstanding call, with the endpoint's behaviour and the two clock
  readings of that moment.
\<close>

record world =
  app :: app_state
  inflight :: "call list"

datatype event =
    Upload jsstring
  | ClearSource
  | SelectSource
  | SelectIteration nat
  | SetPrompt jsstring
  | Generate
  | Settle nat endpoint int int

fun drop_at :: "nat \<Rightarrow> 'a list \<Rightarrow> 'a list" where
  "drop_at k [] = []"
| "drop_at 0 (x # xs) = xs"
| "drop_at (Suc k) (x # xs) = x # drop_at k xs"

fun step :: "world \<Rightarrow> event \<Rightarrow> world" where
  "step w (Upload dataUrl) = w\<lparr>app := onload dataUrl (app w)\<rparr>"
| "step w ClearSource = w\<lparr>app := clearSourceImage (app w)\<rparr>"
| "step w SelectSource = w\<lparr>app := (app w)\<lparr>activeId := Some (js ''source'')\<rparr>\<rparr>"
| "step w (SelectIteration k) =
     (case index (iterations (app w)) k of
        None \<Rightarrow> w
      | Some iteration \<Rightarrow> w\<lparr>app := (app w)\<lparr>activeId := Some (id' iteration)\<rparr>\<rparr>)"
| "step w (SetPrompt p) = w\<lparr>app := (app w)\<lparr>prompt' := p\<rparr>\<rparr>"
| "step w Generate =
     (case handleGenerate_start (app w) of
        (s, None) \<Rightarrow> w\<lparr>app := s\<rparr>
      | (s, Some c) \<Rightarrow> w\<lparr>app := s, inflight := inflight w @ [c]\<rparr>)"
| "step w (Settle k api t1 t2) =
     (case index (inflight w) k of
        None \<Rightarrow> w
      | Some c \<Rightarrow> w\<lparr>app := handleGenerate_finish api t1 t2 c (app w),
                      inflight := drop_at k (inflight w)\<rparr>)"

definition run :: "event list \<Rightarrow> world" where
  "run evs = foldl step \<lparr>app = initial, inflight = []\<rparr> evs"

text \<open>
  Every parent reference names the source or an iteration further back in the list,
  that is, one created before.
\<close>

fun parents_older :: "DesignIteration list \<Rightarrow> bool" where
  "parents_older [] = True"
| "parents_older (i # older) =
     ((case parentId i of
         None \<Rightarrow> True
       | Some p \<Rightarrow> p = js ''source'' \<or> p \<in> set (map id' older))
      \<and> parents_older older)"

text \<open>
  The parent references of a list of iterations as edges, from the id of an iteration
  to the \<open>parentId\<close> it carries.
\<close>

fun parent_edges :: "DesignIteration list \<Rightarrow> (jsstring \<times> jsstring) list" where
  "parent_edges [] = []"
| "parent_edges (i # older) =
     (case parentId i of
        None \<Rightarrow> parent_edges older
      | Some p \<Rightarrow> (id' i, p) # parent_edges older)"

text \<open>
  The two source thumbnails that call \<open>setActiveId('source')\<close> are rendered under
  \<open>sourceImage ? ...\<close> (line 135) and \<open>sourceImage && ...\<close> (line 277).  A run is
  \<open>offered\<close> when each \<open>SelectSource\<close> in it happens in a state whose source image is
  truthy, that is, when the thumbnail was there to be clicked.
\<close>

fun offered_from :: "world \<Rightarrow> event list \<Rightarrow> bool" where
  "offered_from w [] = True"
| "offered_from w (SelectSource # evs) =
     (truthy (sourceImage (app w)) \<and> offered_from (step w SelectSource) evs)"
| "offered_from w (e # evs) = offered_from (step w e) evs"

definition offered :: "event list \<Rightarrow> bool" where
  "offered evs = offered_from \<lparr>app = initial, inflight = []\<rparr> evs"

text \<open>The clock readings at which the calls of a run settle, in order.\<close>

fun clock_readings :: "event list \<Rightarrow> int list" where
  "clock_readings [] = []"
| "clock_readings (Settle k api t1 t2 # evs) = t1 # clock_readings evs"
| "clock_readings (e # evs) = clock_readings evs"

text \<open>
  Responses and endpoints for the examples: a response without candidates, one whose
  only candidate holds a text part, and one whose only candidate holds a text part
  followed by an inline PNG image; \<open>png_endpoint\<close> answers every request with the last.
\<close>

definition empty_response :: response where
  "empty_response = \<lparr>candidates = Some []\<rparr>"

definition text_part :: part where
  "text_part = \<lparr>text' = Some (js ''Here you go''), inlineData = None\<rparr>"

definition png_blob :: blob where
  "png_blob = \<lparr>data = Some (js ''AAAA''), mimeType = Some (js ''image/png'')\<rparr>"

definition png_part :: part where
  "png_part = \<lparr>text' = None, inlineData = Some png_blob\<rparr>"

definition text_response :: response where
  "text_response = \<lparr>candidates = Some [\<lparr>content = \<lparr>parts = Some [text_part]\<rparr>\<rparr>]\<rparr>"

definition png_response :: response where
  "png_response = \<lparr>candidates = Some [\<lparr>content = \<lparr>parts = Some [text_part, png_part]\<rparr>\<rparr>]\<rparr>"

definition png_endpoint :: endpoint where
  "png_endpoint req = Inr png_response"


text \<open>
  More examples: the data URL of a small PNG image, an endpoint whose transport
  fails, the state after that image has been uploaded and the prompt \<open>Add plants\<close>
  typed, and two runs.  In \<open>scenario\<close> the image is uploaded and two generations follow
  one another, the second on the result of the first.  \<open>same_clock\<close> is the same run
  with the clock returning one and the same reading throughout.
\<close>

definition png_url :: jsstring where
  "png_url = js ''data:image/png;base64,AAAA''"

definition quota_endpoint :: endpoint where
  "quota_endpoint req = Inl (Thrown (Some (js ''Quota exceeded'')))"

definition uploaded :: app_state where
  "uploaded = \<lparr>sourceImage = Some png_url, iterations = [], activeId = Some (js ''source''),
                prompt' = js ''Add plants'', isGenerating = False, error = None\<rparr>"

definition scenario :: "event list" where
  "scenario =
     [Upload png_url, SetPrompt (js ''Add plants''), Generate,
      Settle 0 png_endpoint 1730000000000 1730000000001,
      SetPrompt (js ''Make it blue''), Generate,
      Settle 0 png_endpoint 1730000060000 1730000060001]"

definition same_clock :: "event list" where
  "same_clock =
     [Upload png_url, SetPrompt (js ''Add plants''), Generate,
      Settle 0 png_endpoint 1730000000000 1730000000000,
      SetPrompt (js ''Make it blue''), Generate,
      Settle 0 png_endpoint 1730000000000 1730000000000]"


text \<open>
  Two more runs: in \<open>clear_in_flight\<close> the source is cleared while the first call is
  outstanding; \<open>back_to_source\<close> is \<open>scenario\<close> followed by a click on the source
  thumbnail.
\<close>

definition clear_in_flight :: "event list" where
  "clear_in_flight =
     [Upload png_url, SetPrompt (js ''Add plants''), Generate, ClearSource]"

definition back_to_source :: "event list" where
  "back_to_source = scenario @ [SelectSource]"


section \<open>Auxiliary notions\<close>

text \<open>The code units of the decimal digits, and the number a digit string denotes.\<close>

definition digit_chars :: "jschar set" where
  "digit_chars = {0x30, 0x31, 0x32, 0x33, 0x34, 0x35, 0x36, 0x37, 0x38, 0x39}"

definition decimal :: "jsstring \<Rightarrow> nat" where
  "decimal s = foldl (\<lambda>a c. 10 * a + (unat c - 48)) 0 s"

text \<open>
  The Iteration Store of the specification: the source image, the iteration list and
  the active selection.
\<close>

definition store :: "app_state \<Rightarrow> jsstring option \<times> DesignIteration list \<times> jsstring option" where
  "store s = (sourceImage s, iterations s, activeId s)"

text \<open>
  A selection is known in a list of iterations when it is absent, the source, or the id
  of one of them.  The invariant of the runs: the active selection and the selection each
  outstanding call has captured are known, and parents are older.
\<close>

definition known :: "jsstring option \<Rightarrow> DesignIteration list \<Rightarrow> bool" where
  "known a its = (case a of None \<Rightarrow> True | Some x \<Rightarrow> x = js ''source'' \<or> x \<in> set (map id' its))"

definition lineage_ok :: "world \<Rightarrow> bool" where
  "lineage_ok w \<longleftrightarrow>
     known (activeId (app w)) (iterations (app w)) \<and>
     parents_older (iterations (app w)) \<and>
     (\<forall>c\<in>set (inflight w). known (callActiveId c) (iterations (app w)))"


section \<open>Strings and numbers\<close>

lemma index_split_0: "index (split sep s) 0 = Some (takeWhile (\<lambda>c. c \<noteq> sep) s)"
  by (induction s) (auto split: list.splits)

lemma split_no_sep: "sep \<notin> set w \<Longrightarrow> split sep w = [w]"
  by (induction w) auto

lemma split_append_sep: "sep \<notin> set a \<Longrightarrow> split sep (a @ sep # b) = a # split sep b"
  by (induction a) auto

lemma takeWhile_no_sep:
  "sep \<notin> set a \<Longrightarrow> takeWhile (\<lambda>c. c \<noteq> sep) (a @ b) = a @ takeWhile (\<lambda>c. c \<noteq> sep) b"
  by (induction a) auto

lemma js_Nil: "js s = [] \<longleftrightarrow> s = []"
  by (simp add: js_def)

lemma trim_empty_iff: "trim s = [] \<longleftrightarrow> (\<forall>c\<in>set s. is_ws c)"
proof
  assume "trim s = []"
  then have all: "\<forall>c\<in>set (dropWhile is_ws s). is_ws c"
    by (simp add: trim_def dropWhile_eq_Nil_conv)
  have "dropWhile is_ws s = []"
  proof (rule ccontr)
    assume ne: "dropWhile is_ws s \<noteq> []"
    then have "\<not> is_ws (hd (dropWhile is_ws s))"
      by (rule hd_dropWhile)
    moreover have "hd (dropWhile is_ws s) \<in> set (dropWhile is_ws s)"
      using ne by simp
    ultimately show False
      using all by blast
  qed
  then show "\<forall>c\<in>set s. is_ws c"
    by (simp add: dropWhile_eq_Nil_conv)
next
  assume "\<forall>c\<in>set s. is_ws c"
  then show "trim s = []"
    by (auto simp: trim_def dest: set_dropWhileD)
qed

lemma trim_text: "trim (js ''Add plants'') \<noteq> []" "trim (js ''Make it blue'') \<noteq> []"
  by (simp_all add: trim_def is_ws_def js_def)

lemma digit_unat: "k < 10 \<Longrightarrow> unat (digit k) = 48 + k"
  unfolding digit_def by (simp only: unat_of_nat) simp

lemma digit_in: "k < 10 \<Longrightarrow> digit k \<in> digit_chars"
proof -
  assume "k < 10"
  then have "k \<in> {0,1,2,3,4,5,6,7,8,9}" by auto
  then show ?thesis by (auto simp: digit_chars_def digit_def)
qed

lemma digits_chars: "set (digits n) \<subseteq> digit_chars"
proof (induction n rule: digits.induct)
  case (1 n)
  show ?case
  proof (cases "n < 10")
    case True
    then show ?thesis by (simp add: digits.simps [of n] digit_in)
  next
    case False
    then show ?thesis using 1 by (simp add: digits.simps [of n] digit_in)
  qed
qed

lemma digits_not_Nil: "digits n \<noteq> []"
  by (cases "n < 10") (simp_all add: digits.simps [of n])

lemma decimal_digits: "decimal (digits n) = n"
proof (induction n rule: digits.induct)
  case (1 n)
  show ?case
  proof (cases "n < 10")
    case True
    then show ?thesis by (simp add: digits.simps [of n] decimal_def digit_unat)
  next
    case False
    then have "decimal (digits n) = 10 * decimal (digits (n div 10)) + n mod 10"
      by (simp add: digits.simps [of n] decimal_def digit_unat)
    then show ?thesis using 1 False by simp
  qed
qed

lemma digits_inj: "digits m = digits n \<Longrightarrow> m = n"
  by (metis decimal_digits)

lemma minus_not_digit: "(0x2D :: jschar) \<notin> digit_chars"
  by (simp add: digit_chars_def)

lemma digits_no_minus: "digits n \<noteq> 0x2D # cs"
  using digits_chars [of n] minus_not_digit by auto

lemma toString_inj: "toString i = toString j \<Longrightarrow> i = j"
  using digits_no_minus digits_inj
  by (auto simp: toString_def split: if_splits dest!: digits_inj) (metis digits_no_minus)+

lemma toString_not_Nil: "toString i \<noteq> []"
  by (simp add: toString_def digits_not_Nil)

lemma toString_not_source: "toString i \<noteq> js ''source''"
proof
  assume eq: "toString i = js ''source''"
  have "set (toString i) \<subseteq> insert 0x2D digit_chars"
    using digits_chars by (auto simp: toString_def)
  moreover have "(0x73 :: jschar) \<in> set (js ''source'')"
    by (simp add: js_def)
  ultimately show False
    using eq by (auto simp: digit_chars_def)
qed


section \<open>Properties of the Generation Client\<close>

lemma firstInline_None: "firstInline ps = None \<longleftrightarrow> (\<forall>p\<in>set ps. inlineData p = None)"
  by (induction ps) (auto split: option.splits)

lemma firstInline_NoneI: "\<forall>p\<in>set ps. inlineData p = None \<Longrightarrow> firstInline ps = None"
  by (simp add: firstInline_None)

lemma firstInline_first:
  "\<forall>q\<in>set pre. inlineData q = None \<Longrightarrow> inlineData p = Some b \<Longrightarrow>
   firstInline (pre @ p # post) =
     Some (js ''data:'' @ subst (mimeType b) @ js '';base64,'' @ subst (data b))"
  by (induction pre) auto

lemma firstInline_not_Nil: "firstInline ps = Some url \<Longrightarrow> url \<noteq> []"
  by (induction ps) (auto simp: js_def split: option.splits)

lemma baseImageParts_no_colon:
  assumes "baseImage \<noteq> []" and "colon \<notin> set (takeWhile (\<lambda>c. c \<noteq> comma) baseImage)"
  shows "baseImageParts (Some baseImage) = Inl undefined_split"
  using assms by (simp add: baseImageParts_def index_split_0 split_no_sep Let_def)

lemma baseImageParts_data_uri:
  assumes "comma \<notin> set mime" "colon \<notin> set mime" "semicolon \<notin> set mime"
    and "comma \<notin> set params" and "comma \<notin> set payload"
  shows "baseImageParts (Some (js ''data:'' @ mime @ semicolon # params @ comma # payload)) =
           Inr [\<lparr>text' = None, inlineData = Some \<lparr>data = Some payload, mimeType = Some mime\<rparr>\<rparr>]"
proof -
  define rest where "rest = mime @ semicolon # params"
  define prefix where "prefix = js ''data'' @ colon # rest"
  have whole: "js ''data:'' @ mime @ semicolon # params @ comma # payload =
      prefix @ comma # payload"
    by (simp add: prefix_def rest_def js_def colon_def)
  have "comma \<notin> set prefix"
    using assms(1,4) by (simp add: prefix_def rest_def js_def comma_def colon_def semicolon_def)
  then have "split comma (prefix @ comma # payload) = prefix # split comma payload"
    by (rule split_append_sep)
  then have segs: "split comma (prefix @ comma # payload) = [prefix, payload]"
    by (simp add: split_no_sep [OF assms(5)])
  have "colon \<notin> set (js ''data'')"
    by (simp add: js_def colon_def)
  then have "split colon prefix = js ''data'' # split colon rest"
    unfolding prefix_def by (rule split_append_sep)
  then have pre: "index (split colon prefix) (Suc 0) = Some (takeWhile (\<lambda>c. c \<noteq> colon) rest)"
    by (simp add: index_split_0)
  have "colon \<noteq> semicolon"
    by (simp add: colon_def semicolon_def)
  then have m: "takeWhile (\<lambda>c. c \<noteq> colon) rest =
      mime @ semicolon # takeWhile (\<lambda>c. c \<noteq> colon) params"
    using assms(2) by (simp add: rest_def takeWhile_no_sep)
  have "split semicolon (mime @ semicolon # takeWhile (\<lambda>c. c \<noteq> colon) params) =
      mime # split semicolon (takeWhile (\<lambda>c. c \<noteq> colon) params)"
    using assms(3) by (rule split_append_sep)
  then have mt: "index (split semicolon (takeWhile (\<lambda>c. c \<noteq> colon) rest)) 0 = Some mime"
    by (simp add: m)
  have "prefix @ comma # payload \<noteq> []"
    by simp
  then have "baseImageParts (Some (prefix @ comma # payload)) =
      Inr [\<lparr>text' = None, inlineData = Some \<lparr>data = Some payload, mimeType = Some mime\<rparr>\<rparr>]"
    unfolding baseImageParts_def by (simp add: segs pre mt del: append_is_Nil_conv)
  then show ?thesis
    by (simp only: whole)
qed

lemma generateImage_received:
  assumes "fst (generateImage api p baseImage) = [req]" and "api req = Inr r"
  shows "snd (generateImage api p baseImage) = extractImage r"
  using assms by (auto simp: generateImage_def Let_def split: sum.splits)

lemma generateImage_not_Nil:
  assumes "snd (generateImage api p b) = Inr url"
  shows "url \<noteq> []"
proof -
  from assms obtain r where "extractImage r = Inr url"
    by (auto simp: generateImage_def Let_def split: sum.splits)
  then show ?thesis
    by (auto simp: extractImage_def split: option.splits list.splits dest: firstInline_not_Nil)
qed

lemma png_url_not_Nil: "png_url \<noteq> []"
  by (simp add: png_url_def js_def)

lemma png_parts:
  "baseImageParts (Some png_url) =
     Inr [\<lparr>text' = None,
           inlineData = Some \<lparr>data = Some (js ''AAAA''), mimeType = Some (js ''image/png'')\<rparr>\<rparr>]"
  by (simp add: baseImageParts_def png_url_def js_def comma_def colon_def semicolon_def)

lemma png_image: "snd (generateImage png_endpoint p (Some png_url)) = Inr png_url"
  unfolding generateImage_def png_parts
  by (simp add: png_endpoint_def extractImage_def png_response_def
      text_part_def png_part_def png_blob_def subst_def png_url_def js_def)

lemma quota_fails:
  "snd (generateImage quota_endpoint p (Some png_url)) = Inl (Thrown (Some (js ''Quota exceeded'')))"
  unfolding generateImage_def png_parts
  by (simp add: quota_endpoint_def)

text \<open>
  C2: for every response the client receives: without candidates the client fails with
  \<open>NoCandidatesError\<close>; when the parts of the first candidate hold no inline data it fails
  with \<open>NoImageInResponseError\<close>; otherwise it returns the first inline data of the first
  candidate as \<open>data:<mime type>;base64,<data>\<close>, with the mime type the part declares.
\<close>

theorem generateImage_response:
  assumes "fst (generateImage api p baseImage) = [req]" and "api req = Inr r"
  shows "(candidates r = None \<or> candidates r = Some [] \<longrightarrow>
            snd (generateImage api p baseImage) = Inl NoCandidatesError) \<and>
         (\<forall>c cs. candidates r = Some (c # cs) \<and>
              (\<forall>ps. parts (content c) = Some ps \<longrightarrow> (\<forall>q\<in>set ps. inlineData q = None)) \<longrightarrow>
            snd (generateImage api p baseImage) = Inl NoImageInResponseError) \<and>
         (\<forall>c cs pre q post b mt. candidates r = Some (c # cs) \<and>
              parts (content c) = Some (pre @ q # post) \<and>
              (\<forall>q'\<in>set pre. inlineData q' = None) \<and> inlineData q = Some b \<and>
              mimeType b = Some mt \<longrightarrow>
            snd (generateImage api p baseImage) =
              Inr (js ''data:'' @ mt @ js '';base64,'' @ subst (data b)))"
proof -
  have e: "snd (generateImage api p baseImage) = extractImage r"
    using assms by (rule generateImage_received)
  have a: "candidates r = None \<or> candidates r = Some [] \<Longrightarrow>
      extractImage r = Inl NoCandidatesError"
    by (auto simp: extractImage_def NoCandidatesError_def)
  have b: "candidates r = Some (c # cs) \<Longrightarrow>
      \<forall>ps. parts (content c) = Some ps \<longrightarrow> (\<forall>q\<in>set ps. inlineData q = None) \<Longrightarrow>
      extractImage r = Inl NoImageInResponseError" for c cs
    by (simp add: extractImage_def NoImageInResponseError_def firstInline_NoneI
        split: option.splits)
  have c: "candidates r = Some (c # cs) \<Longrightarrow>
      parts (content c) = Some (pre @ q # post) \<Longrightarrow>
      \<forall>q'\<in>set pre. inlineData q' = None \<Longrightarrow> inlineData q = Some b \<Longrightarrow>
      mimeType b = Some mt \<Longrightarrow>
      extractImage r = Inr (js ''data:'' @ mt @ js '';base64,'' @ subst (data b))"
    for c cs pre q post b mt
    by (simp add: extractImage_def firstInline_first subst_def)
  show ?thesis
    unfolding e using a b c by blast
qed

theorem generateImage_response_witness:
  "snd (generateImage (\<lambda>req. Inr empty_response) (js ''Add plants'') None) =
     Inl NoCandidatesError \<and>
   snd (generateImage (\<lambda>req. Inr text_response) (js ''Add plants'') None) =
     Inl NoImageInResponseError \<and>
   snd (generateImage png_endpoint (js ''Add plants'') None) =
     Inr (js ''data:image/png;base64,AAAA'')"
proof -
  let ?req = "\<lparr>model = js ''gemini-2.5-flash-image'',
     contents = \<lparr>parts = Some [\<lparr>text' = Some (js ''Add plants''), inlineData = None\<rparr>]\<rparr>\<rparr>"
  have sent: "fst (generateImage api (js ''Add plants'') None) = [?req]" for api
    by (simp add: generateImage_def baseImageParts_def Let_def split: sum.splits)
  have "snd (generateImage (\<lambda>req. Inr empty_response) (js ''Add plants'') None) =
     Inl NoCandidatesError"
    using generateImage_response [OF sent, of "\<lambda>req. Inr empty_response" empty_response]
    by (simp add: empty_response_def)
  moreover have "snd (generateImage (\<lambda>req. Inr text_response) (js ''Add plants'') None) =
     Inl NoImageInResponseError"
    using generateImage_response [OF sent, of "\<lambda>req. Inr text_response" text_response]
    by (simp add: text_response_def text_part_def)
  moreover have "snd (generateImage png_endpoint (js ''Add plants'') None) =
     Inr (js ''data:'' @ js ''image/png'' @ js '';base64,'' @ subst (data png_blob))"
  proof -
    have r: "png_endpoint ?req = Inr png_response"
      by (simp add: png_endpoint_def)
    note t = generateImage_response [where api = png_endpoint and r = png_response,
        OF sent r, THEN conjunct2, THEN conjunct2, rule_format,
        where c = "\<lparr>content = \<lparr>parts = Some [text_part, png_part]\<rparr>\<rparr>" and cs = "[]" and
          pre = "[text_part]" and q = png_part and post = "[]" and b = png_blob
          and mt = "js ''image/png''"]
    show ?thesis
      by (rule t) (simp add: png_response_def png_part_def text_part_def png_blob_def)
  qed
  ultimately show ?thesis
    by (simp add: js_def subst_def png_blob_def)
qed

text \<open>
  C9: for a base image of data-URI shape, \<open>data:<mime>;<parameters>,<payload>\<close>, the
  client submits exactly one request, to the model \<open>gemini-2.5-flash-image\<close>, whose
  parts are the inline image with that mime type and payload followed by the text part
  with the prompt; without a base image the request holds the text part alone.
\<close>

theorem generateImage_request:
  assumes "comma \<notin> set mime" "colon \<notin> set mime" "semicolon \<notin> set mime"
    and "comma \<notin> set params" and "comma \<notin> set payload"
  shows "fst (generateImage api p
               (Some (js ''data:'' @ mime @ semicolon # params @ comma # payload))) =
           [\<lparr>model = js ''gemini-2.5-flash-image'',
             contents = \<lparr>parts = Some
               [\<lparr>text' = None,
                 inlineData = Some \<lparr>data = Some payload, mimeType = Some mime\<rparr>\<rparr>,
                \<lparr>text' = Some p, inlineData = None\<rparr>]\<rparr>\<rparr>] \<and>
         fst (generateImage api p None) =
           [\<lparr>model = js ''gemini-2.5-flash-image'',
             contents = \<lparr>parts = Some [\<lparr>text' = Some p, inlineData = None\<rparr>]\<rparr>\<rparr>]"
proof -
  have "baseImageParts None = Inr []"
    by (simp add: baseImageParts_def)
  then show ?thesis
    unfolding generateImage_def
    by (simp only: baseImageParts_data_uri [OF assms]) (simp add: Let_def split: sum.splits)
qed

theorem generateImage_request_witness:
  "comma \<notin> set (js ''image/png'') \<and> colon \<notin> set (js ''image/png'') \<and>
   semicolon \<notin> set (js ''image/png'') \<and> comma \<notin> set (js ''base64'') \<and>
   comma \<notin> set (js ''AAAA'') \<and>
   fst (generateImage png_endpoint (js ''Add plants'')
         (Some (js ''data:image/png;base64,AAAA''))) =
     [\<lparr>model = js ''gemini-2.5-flash-image'',
       contents = \<lparr>parts = Some
         [\<lparr>text' = None,
           inlineData = Some \<lparr>data = Some (js ''AAAA''), mimeType = Some (js ''image/png'')\<rparr>\<rparr>,
          \<lparr>text' = Some (js ''Add plants''), inlineData = None\<rparr>]\<rparr>\<rparr>]"
proof -
  have h: "comma \<notin> set (js ''image/png'')" "colon \<notin> set (js ''image/png'')"
    "semicolon \<notin> set (js ''image/png'')" "comma \<notin> set (js ''base64'')"
    "comma \<notin> set (js ''AAAA'')"
    by (simp_all add: js_def comma_def colon_def semicolon_def)
  have "js ''data:'' @ js ''image/png'' @ semicolon # js ''base64'' @ comma # js ''AAAA'' =
      js ''data:image/png;base64,AAAA''"
    by (simp add: js_def comma_def semicolon_def)
  then show ?thesis
    using generateImage_request [OF h, of png_endpoint "js ''Add plants''"] h
    by simp
qed

text \<open>
  C10: the decoding of the base image is partial.  For every non-empty \<open>baseImage\<close> whose
  segment before the first comma contains no colon (\<open>"not-a-data-uri"\<close> is one),
  \<open>generateImage\<close> throws a \<open>TypeError\<close> out of the string parsing: no request has been
  submitted, and the error is neither of the two errors the client raises itself, nor,
  no call having been made, a failure of the call.
\<close>

theorem generateImage_undecodable:
  assumes "baseImage \<noteq> []" and "colon \<notin> set (takeWhile (\<lambda>c. c \<noteq> comma) baseImage)"
  shows "fst (generateImage api p (Some baseImage)) = [] \<and>
         (\<exists>m. snd (generateImage api p (Some baseImage)) = Inl (TypeError m)) \<and>
         snd (generateImage api p (Some baseImage)) \<noteq> Inl NoCandidatesError \<and>
         snd (generateImage api p (Some baseImage)) \<noteq> Inl NoImageInResponseError"
  using assms
  by (simp add: generateImage_def baseImageParts_no_colon undefined_split_def
      NoCandidatesError_def NoImageInResponseError_def)

theorem generateImage_undecodable_witness:
  "js ''not-a-data-uri'' \<noteq> [] \<and>
   colon \<notin> set (takeWhile (\<lambda>c. c \<noteq> comma) (js ''not-a-data-uri'')) \<and>
   fst (generateImage png_endpoint (js ''Add plants'') (Some (js ''not-a-data-uri''))) = [] \<and>
   (\<exists>m. snd (generateImage png_endpoint (js ''Add plants'') (Some (js ''not-a-data-uri''))) =
          Inl (TypeError m))"
proof -
  have h1: "js ''not-a-data-uri'' \<noteq> []"
    by (simp add: js_def)
  have h2: "colon \<notin> set (takeWhile (\<lambda>c. c \<noteq> comma) (js ''not-a-data-uri''))"
    by (simp add: js_def comma_def colon_def)
  show ?thesis
    using generateImage_undecodable [OF h1 h2, of png_endpoint "js ''Add plants''"] h1 h2
    by simp
qed


section \<open>Properties of the handlers\<close>

lemma start_ready:
  "trim (prompt' s) \<noteq> [] \<Longrightarrow>
   handleGenerate_start s =
     (s\<lparr>isGenerating := True, error := None\<rparr>,
      Some \<lparr>callPrompt = prompt' s, callBaseImage = baseImageFor s, callActiveId = activeId s\<rparr>)"
  by (simp add: handleGenerate_start_def)

lemma finish_success:
  "snd (generateImage api (callPrompt c) (callBaseImage c)) = Inr url \<Longrightarrow>
   handleGenerate_finish api t1 t2 c s =
     s\<lparr>iterations := \<lparr>id' = toString t1, imageUrl = url, prompt = callPrompt c, timestamp = t2,
           parentId = (if truthy (callActiveId c) then callActiveId c else None)\<rparr> # iterations s,
       activeId := Some (toString t1), isGenerating := False\<rparr>"
  by (simp add: handleGenerate_finish_def)

lemma start_cases:
  "handleGenerate_start s = (s', r) \<Longrightarrow>
     store s' = store s \<and> (\<forall>c. r = Some c \<longrightarrow> callActiveId c = activeId s)"
  by (auto simp: handleGenerate_start_def store_def split: if_splits)

lemma finish_cases:
  "(\<exists>url. snd (generateImage api (callPrompt c) (callBaseImage c)) = Inr url \<and>
      iterations (handleGenerate_finish api t1 t2 c s) =
        \<lparr>id' = toString t1, imageUrl = url, prompt = callPrompt c, timestamp = t2,
         parentId = (if truthy (callActiveId c) then callActiveId c else None)\<rparr> # iterations s \<and>
      activeId (handleGenerate_finish api t1 t2 c s) = Some (toString t1)) \<or>
   store (handleGenerate_finish api t1 t2 c s) = store s"
  by (cases "snd (generateImage api (callPrompt c) (callBaseImage c))")
     (simp_all add: handleGenerate_finish_def store_def)

lemmas evaluate = run_def onload_def start_ready trim_text finish_success png_image
  initial_def baseImageFor_def truthy_def toString_not_source toString_not_Nil js_Nil
  png_url_not_Nil

lemma start_uploaded:
  "handleGenerate_start uploaded =
     (uploaded\<lparr>isGenerating := True, error := None\<rparr>,
      Some \<lparr>callPrompt = js ''Add plants'', callBaseImage = Some png_url,
            callActiveId = Some (js ''source'')\<rparr>)"
  by (simp add: uploaded_def evaluate)

text \<open>
  C3: when the prompt is empty or consists of white space only, \<open>handleGenerate\<close> does
  not invoke the client, sets the error message \<open>Please enter a prompt.\<close>, and leaves the
  source image, the iteration list and the active selection as they are.
\<close>

theorem handleGenerate_blank_prompt:
  assumes "\<forall>c\<in>set (prompt' s). is_ws c"
  shows "fst (handleGenerate api t1 t2 s) = None \<and>
         error (snd (handleGenerate api t1 t2 s)) = Some (js ''Please enter a prompt.'') \<and>
         store (snd (handleGenerate api t1 t2 s)) = store s"
proof -
  have "trim (prompt' s) = []"
    using assms by (simp add: trim_empty_iff)
  then show ?thesis
    by (simp add: handleGenerate_def handleGenerate_start_def store_def)
qed

theorem handleGenerate_blank_prompt_witness:
  "prompt' (uploaded\<lparr>prompt' := [0x20, 0x09, 0xA0]\<rparr>) = [0x20, 0x09, 0xA0] \<and>
   is_ws 0x20 \<and> is_ws 0x09 \<and> is_ws 0xA0 \<and>
   fst (handleGenerate png_endpoint 1730000000000 1730000000001
          (uploaded\<lparr>prompt' := [0x20, 0x09, 0xA0]\<rparr>)) = None \<and>
   error (snd (handleGenerate png_endpoint 1730000000000 1730000000001
          (uploaded\<lparr>prompt' := [0x20, 0x09, 0xA0]\<rparr>))) = Some (js ''Please enter a prompt.'') \<and>
   store (snd (handleGenerate png_endpoint 1730000000000 1730000000001
          (uploaded\<lparr>prompt' := [0x20, 0x09, 0xA0]\<rparr>))) =
     (Some png_url, [], Some (js ''source''))"
proof -
  let ?s = "uploaded\<lparr>prompt' := [0x20, 0x09, 0xA0]\<rparr>"
  have h: "\<forall>c\<in>set (prompt' ?s). is_ws c"
    by (simp add: is_ws_def)
  have "store ?s = (Some png_url, [], Some (js ''source''))"
    by (simp add: store_def uploaded_def)
  then show ?thesis
    using handleGenerate_blank_prompt [OF h, of png_endpoint 1730000000000 1730000000001] h
    by simp
qed

text \<open>
  C4: when the call of the client throws, the source image, the iteration list and the
  active selection are what they were before the attempt (and, if other events came in
  between, what they are when the call settles); and \<open>isGenerating\<close> is false once the
  call has settled, whether it returned or threw.
\<close>

theorem handleGenerate_failure:
  assumes "handleGenerate_start s0 = (s1, Some c)"
  shows "(\<forall>e. snd (generateImage api (callPrompt c) (callBaseImage c)) = Inl e \<longrightarrow>
            store (snd (handleGenerate api t1 t2 s0)) = store s0 \<and>
            store (handleGenerate_finish api t1 t2 c s) = store s) \<and>
         \<not> isGenerating (snd (handleGenerate api t1 t2 s0)) \<and>
         \<not> isGenerating (handleGenerate_finish api t1 t2 c s)"
proof -
  have s1: "store s1 = store s0"
    using assms by (auto simp: handleGenerate_start_def store_def split: if_splits)
  have gen: "\<not> isGenerating (handleGenerate_finish api t1 t2 c s')" for s'
    by (simp add: handleGenerate_finish_def Let_def split: sum.splits)
  have keep: "snd (generateImage api (callPrompt c) (callBaseImage c)) = Inl e \<Longrightarrow>
      store (handleGenerate_finish api t1 t2 c s') = store s'" for e s'
    by (simp add: handleGenerate_finish_def store_def)
  have whole: "snd (handleGenerate api t1 t2 s0) = handleGenerate_finish api t1 t2 c s1"
    using assms by (simp add: handleGenerate_def)
  show ?thesis
    using s1 gen keep by (simp add: whole)
qed

theorem handleGenerate_failure_witness:
  "handleGenerate_start uploaded =
     (uploaded\<lparr>isGenerating := True, error := None\<rparr>,
      Some \<lparr>callPrompt = js ''Add plants'', callBaseImage = Some png_url,
            callActiveId = Some (js ''source'')\<rparr>) \<and>
   snd (generateImage quota_endpoint (js ''Add plants'') (Some png_url)) =
     Inl (Thrown (Some (js ''Quota exceeded''))) \<and>
   store (snd (handleGenerate quota_endpoint 1730000000000 1730000000001 uploaded)) = store uploaded \<and>
   \<not> isGenerating (snd (handleGenerate quota_endpoint 1730000000000 1730000000001 uploaded))"
  using handleGenerate_failure [OF start_uploaded, of quota_endpoint 1730000000000 1730000000001 uploaded]
    start_uploaded quota_fails
  by simp

text \<open>
  C6: once a generation has succeeded and its iteration has been added, the image shown
  (\<open>activeImageUrl\<close>) is the image the client returned.
\<close>

theorem handleGenerate_shows_result:
  assumes "snd (generateImage api (callPrompt c) (callBaseImage c)) = Inr url"
  shows "activeImageUrl (handleGenerate_finish api t1 t2 c s) = Some url"
  using assms generateImage_not_Nil [OF assms]
  by (simp add: handleGenerate_finish_def activeImageUrl_def toString_not_source)

theorem handleGenerate_shows_result_witness:
  "snd (generateImage png_endpoint (js ''Add plants'') (Some png_url)) = Inr png_url \<and>
   activeImageUrl (handleGenerate_finish png_endpoint 1730000000000 1730000000001
       \<lparr>callPrompt = js ''Add plants'', callBaseImage = Some png_url,
        callActiveId = Some (js ''source'')\<rparr> (uploaded\<lparr>isGenerating := True\<rparr>)) = Some png_url"
  using handleGenerate_shows_result [of png_endpoint
      "\<lparr>callPrompt = js ''Add plants'', callBaseImage = Some png_url,
        callActiveId = Some (js ''source'')\<rparr>" png_url 1730000000000 1730000000001
      "uploaded\<lparr>isGenerating := True\<rparr>"] png_image
  by simp


section \<open>Properties of the runs\<close>

lemma index_Some_in: "index xs k = Some x \<Longrightarrow> x \<in> set xs"
  by (induction xs k rule: index.induct) auto

lemma set_drop_at: "set (drop_at k xs) \<subseteq> set xs"
  by (induction k xs rule: drop_at.induct) auto

lemma known_Cons: "known a its \<Longrightarrow> known a (i # its)"
  by (auto simp: known_def split: option.splits)

lemma run_snoc: "run (evs @ [e]) = step (run evs) e"
  by (simp add: run_def)

lemma uploaded_run: "uploaded = app (run [Upload png_url, SetPrompt (js ''Add plants'')])"
  by (simp add: uploaded_def evaluate)

lemma run_scenario:
  "run scenario =
     \<lparr>app = \<lparr>sourceImage = Some png_url,
              iterations =
                [\<lparr>id' = toString 1730000060000, imageUrl = png_url, prompt = js ''Make it blue'',
                  timestamp = 1730000060001, parentId = Some (toString 1730000000000)\<rparr>,
                 \<lparr>id' = toString 1730000000000, imageUrl = png_url, prompt = js ''Add plants'',
                  timestamp = 1730000000001, parentId = Some (js ''source'')\<rparr>],
              activeId = Some (toString 1730000060000), prompt' = js ''Make it blue'',
              isGenerating = False, error = None\<rparr>,
      inflight = []\<rparr>"
  by (simp add: scenario_def evaluate)

lemma run_same_clock:
  "map id' (iterations (app (run same_clock))) = [toString 1730000000000, toString 1730000000000]"
  by (simp add: same_clock_def evaluate)

text \<open>
  C5: \<open>clearSourceImage\<close> removes the source image and deletes no iteration.  If the
  source was the active selection, the selection becomes the id of the iteration at the
  front of the list (the one added last) when there is one, and none otherwise, and then
  no image is shown; any other selection stays.
\<close>

theorem clearSourceImage_reselects:
  "sourceImage (clearSourceImage s) = None \<and>
   iterations (clearSourceImage s) = iterations s \<and>
   (activeId s = Some (js ''source'') \<longrightarrow>
      (\<forall>i older. iterations s = i # older \<longrightarrow> activeId (clearSourceImage s) = Some (id' i)) \<and>
      (iterations s = [] \<longrightarrow>
         activeId (clearSourceImage s) = None \<and> activeImageUrl (clearSourceImage s) = None)) \<and>
   (activeId s \<noteq> Some (js ''source'') \<longrightarrow> activeId (clearSourceImage s) = activeId s)"
  by (simp add: clearSourceImage_def activeImageUrl_def)

theorem clearSourceImage_reselects_witness:
  "activeId uploaded = Some (js ''source'') \<and> iterations uploaded = [] \<and>
   activeId (clearSourceImage uploaded) = None \<and>
   activeImageUrl (clearSourceImage uploaded) = None \<and>
   activeId (app (step (run scenario) SelectSource)) = Some (js ''source'') \<and>
   map id' (iterations (app (step (run scenario) SelectSource))) =
     [toString 1730000060000, toString 1730000000000] \<and>
   activeId (clearSourceImage (app (step (run scenario) SelectSource))) =
     Some (toString 1730000060000) \<and>
   iterations (clearSourceImage (app (step (run scenario) SelectSource))) =
     iterations (app (step (run scenario) SelectSource))"
  using clearSourceImage_reselects [of uploaded]
    clearSourceImage_reselects [of "app (step (run scenario) SelectSource)"]
  by (simp add: uploaded_def run_scenario)

lemma lineage_ok_step:
  assumes "lineage_ok w"
  shows "lineage_ok (step w e)"
proof (cases e)
  case (Upload dataUrl)
  then show ?thesis using assms by (simp add: lineage_ok_def onload_def known_def)
next
  case ClearSource
  have "iterations (clearSourceImage (app w)) = iterations (app w)"
    by (simp add: clearSourceImage_def)
  moreover have "known (activeId (clearSourceImage (app w))) (iterations (app w))"
    using assms by (auto simp: lineage_ok_def clearSourceImage_def known_def split: list.splits)
  ultimately show ?thesis
    using assms ClearSource by (simp add: lineage_ok_def)
next
  case SelectSource
  then show ?thesis using assms by (simp add: lineage_ok_def known_def)
next
  case (SelectIteration k)
  then show ?thesis using assms
    by (auto simp: lineage_ok_def known_def split: option.splits dest: index_Some_in)
next
  case (SetPrompt p)
  then show ?thesis using assms by (simp add: lineage_ok_def)
next
  case Generate
  obtain s' r where st: "handleGenerate_start (app w) = (s', r)"
    by (cases "handleGenerate_start (app w)")
  from start_cases [OF st] have same: "iterations s' = iterations (app w)" "activeId s' = activeId (app w)"
    and c: "\<And>c. r = Some c \<Longrightarrow> callActiveId c = activeId (app w)"
    by (simp_all add: store_def)
  show ?thesis
    using assms Generate st same c
    by (cases r) (auto simp: lineage_ok_def)
next
  case (Settle k api t1 t2)
  show ?thesis
  proof (cases "index (inflight w) k")
    case None
    then show ?thesis using assms Settle by simp
  next
    case (Some c)
    then have cin: "c \<in> set (inflight w)" by (rule index_Some_in)
    then have kc: "known (callActiveId c) (iterations (app w))"
      using assms by (simp add: lineage_ok_def)
    let ?s = "handleGenerate_finish api t1 t2 c (app w)"
    have rest: "\<forall>c'\<in>set (drop_at k (inflight w)). known (callActiveId c') (iterations (app w))"
      using assms set_drop_at [of k "inflight w"] by (auto simp: lineage_ok_def)
    from finish_cases [of api c t1 t2 "app w"] show ?thesis
    proof
      assume "\<exists>url. snd (generateImage api (callPrompt c) (callBaseImage c)) = Inr url \<and>
        iterations ?s =
          \<lparr>id' = toString t1, imageUrl = url, prompt = callPrompt c, timestamp = t2,
           parentId = (if truthy (callActiveId c) then callActiveId c else None)\<rparr> # iterations (app w) \<and>
        activeId ?s = Some (toString t1)"
      then obtain url where its: "iterations ?s =
          \<lparr>id' = toString t1, imageUrl = url, prompt = callPrompt c, timestamp = t2,
           parentId = (if truthy (callActiveId c) then callActiveId c else None)\<rparr> # iterations (app w)"
        and act: "activeId ?s = Some (toString t1)"
        by blast
      have "parents_older (iterations ?s)"
        using assms kc by (auto simp: its lineage_ok_def known_def split: option.splits)
      moreover have "known (activeId ?s) (iterations ?s)"
        by (simp add: its act known_def)
      moreover have "\<forall>c'\<in>set (drop_at k (inflight w)). known (callActiveId c') (iterations ?s)"
        using rest by (simp add: its known_Cons)
      ultimately show ?thesis
        using Settle Some by (simp add: lineage_ok_def)
    next
      assume "store ?s = store (app w)"
      then have "iterations ?s = iterations (app w)" "activeId ?s = activeId (app w)"
        by (simp_all add: store_def)
      then show ?thesis
        using assms rest Settle Some by (simp add: lineage_ok_def)
    qed
  qed
qed

lemma lineage_ok_run: "lineage_ok (run evs)"
proof (induction evs rule: rev_induct)
  case Nil
  show ?case by (simp add: run_def lineage_ok_def initial_def known_def)
next
  case (snoc e evs)
  then show ?case by (simp add: run_snoc lineage_ok_step)
qed

lemma parents_older_nth:
  "parents_older its \<Longrightarrow> k < length its \<Longrightarrow> parentId (its ! k) = Some p \<Longrightarrow>
     p = js ''source'' \<or> (\<exists>j. k < j \<and> j < length its \<and> id' (its ! j) = p)"
proof (induction its arbitrary: k)
  case Nil
  then show ?case by simp
next
  case (Cons i its)
  show ?case
  proof (cases k)
    case 0
    with Cons.prems have "p = js ''source'' \<or> p \<in> set (map id' its)"
      by simp
    then show ?thesis
    proof
      assume "p \<in> set (map id' its)"
      then obtain j where "j < length its" "id' (its ! j) = p"
        by (auto simp: in_set_conv_nth)
      then have "k < Suc j \<and> Suc j < length (i # its) \<and> id' ((i # its) ! Suc j) = p"
        using 0 by simp
      then show ?thesis by blast
    qed simp
  next
    case (Suc k')
    with Cons.prems have "p = js ''source'' \<or> (\<exists>j. k' < j \<and> j < length its \<and> id' (its ! j) = p)"
      using Cons.IH [of k'] by simp
    then show ?thesis
    proof
      assume "\<exists>j. k' < j \<and> j < length its \<and> id' (its ! j) = p"
      then obtain j where "k' < j" "j < length its" "id' (its ! j) = p" by blast
      then have "k < Suc j \<and> Suc j < length (i # its) \<and> id' ((i # its) ! Suc j) = p"
        using Suc by simp
      then show ?thesis by blast
    qed simp
  qed
qed

lemma clock_readings_snoc:
  "clock_readings (evs @ [e]) = clock_readings evs @ clock_readings [e]"
  by (induction evs rule: clock_readings.induct) simp_all

lemma step_iterations:
  "iterations (app (step w e)) = iterations (app w) \<or>
   (\<exists>k api t1 t2 new. e = Settle k api t1 t2 \<and>
      iterations (app (step w e)) = new # iterations (app w) \<and> id' new = toString t1)"
proof (cases e)
  case Generate
  obtain s' r where st: "handleGenerate_start (app w) = (s', r)"
    by (cases "handleGenerate_start (app w)")
  from start_cases [OF st] have "iterations s' = iterations (app w)"
    by (simp add: store_def)
  then show ?thesis
    using Generate st by (cases r) simp_all
next
  case (Settle k api t1 t2)
  show ?thesis
  proof (cases "index (inflight w) k")
    case None
    then show ?thesis using Settle by simp
  next
    case (Some c)
    from finish_cases [of api c t1 t2 "app w"] show ?thesis
      using Settle Some by (auto simp: store_def)
  qed
qed (simp_all add: onload_def clearSourceImage_def split: option.splits)

lemma run_ids:
  "set (map id' (iterations (app (run evs)))) \<subseteq> toString ` set (clock_readings evs) \<and>
   (distinct (clock_readings evs) \<longrightarrow> distinct (map id' (iterations (app (run evs)))))"
proof (induction evs rule: rev_induct)
  case Nil
  show ?case by (simp add: run_def initial_def)
next
  case (snoc e evs)
  let ?its = "iterations (app (run evs))"
  from step_iterations [of "run evs" e] show ?case
  proof
    assume same: "iterations (app (step (run evs) e)) = ?its"
    have "distinct (clock_readings (evs @ [e])) \<Longrightarrow> distinct (clock_readings evs)"
      by (simp add: clock_readings_snoc)
    then show ?thesis
      using snoc same by (auto simp: run_snoc clock_readings_snoc)
  next
    assume "\<exists>k api t1 t2 new. e = Settle k api t1 t2 \<and>
      iterations (app (step (run evs) e)) = new # ?its \<and> id' new = toString t1"
    then obtain k api t1 t2 new where e: "e = Settle k api t1 t2"
      and its: "iterations (app (step (run evs) e)) = new # ?its" and new: "id' new = toString t1"
      by blast
    have cr: "clock_readings (evs @ [e]) = clock_readings evs @ [t1]"
      by (simp add: clock_readings_snoc e)
    have sub: "set (map id' (new # ?its)) \<subseteq> toString ` set (clock_readings evs @ [t1])"
      using snoc new by auto
    have "distinct (map id' (new # ?its))" if d: "distinct (clock_readings evs @ [t1])"
    proof -
      from d have "t1 \<notin> set (clock_readings evs)" and "distinct (clock_readings evs)"
        by simp_all
      then have "toString t1 \<notin> toString ` set (clock_readings evs)" and "distinct (map id' ?its)"
        using snoc by (auto dest: toString_inj)
      then show ?thesis
        using snoc new by auto
    qed
    then show ?thesis
      using sub by (simp only: run_snoc its cr) blast
  qed
qed

text \<open>
  C8, as amended: an iteration is constructed with the decimal print of the clock
  reading as its id and a second clock reading as its timestamp; in every run in which
  the clock readings at which calls settle are pairwise distinct, the ids of the
  iterations in the list are pairwise distinct.
\<close>

theorem iteration_id_and_timestamp:
  "(\<forall>url. snd (generateImage api (callPrompt c) (callBaseImage c)) = Inr url \<longrightarrow>
      (\<exists>new. iterations (handleGenerate_finish api t1 t2 c s) = new # iterations s \<and>
             id' new = toString t1 \<and> timestamp new = t2)) \<and>
   (distinct (clock_readings evs) \<longrightarrow> distinct (map id' (iterations (app (run evs)))))"
proof -
  have "\<exists>new. iterations (handleGenerate_finish api t1 t2 c s) = new # iterations s \<and>
             id' new = toString t1 \<and> timestamp new = t2"
    if "snd (generateImage api (callPrompt c) (callBaseImage c)) = Inr url" for url
    using that by (simp add: handleGenerate_finish_def)
  then show ?thesis
    using run_ids [of evs] by blast
qed

theorem iteration_id_and_timestamp_witness:
  "snd (generateImage png_endpoint (js ''Add plants'') (Some png_url)) = Inr png_url \<and>
   (\<exists>new. iterations (handleGenerate_finish png_endpoint 1730000000000 1730000000001
               \<lparr>callPrompt = js ''Add plants'', callBaseImage = Some png_url,
                callActiveId = Some (js ''source'')\<rparr> uploaded) = [new] \<and>
          id' new = js ''1730000000000'' \<and> timestamp new = 1730000000001) \<and>
   distinct (clock_readings scenario) \<and>
   map id' (iterations (app (run scenario))) = [js ''1730000060000'', js ''1730000000000''] \<and>
   distinct (map id' (iterations (app (run scenario))))"
proof -
  let ?c = "\<lparr>callPrompt = js ''Add plants'', callBaseImage = Some png_url,
            callActiveId = Some (js ''source'')\<rparr>"
  note t = iteration_id_and_timestamp [of png_endpoint ?c 1730000000000 1730000000001
      uploaded scenario]
  have h: "snd (generateImage png_endpoint (callPrompt ?c) (callBaseImage ?c)) = Inr png_url"
    by (simp add: png_image)
  have d: "distinct (clock_readings scenario)"
    by (simp add: scenario_def)
  have ids: "toString 1730000060000 = js ''1730000060000''"
    "toString 1730000000000 = js ''1730000000000''"
    by (simp_all add: toString_def digits.simps digit_def js_def)
  from t h obtain new where
    "iterations (handleGenerate_finish png_endpoint 1730000000000 1730000000001 ?c uploaded) =
       new # iterations uploaded"
    "id' new = toString 1730000000000" "timestamp new = 1730000000001"
    by blast
  then have "\<exists>new. iterations (handleGenerate_finish png_endpoint 1730000000000 1730000000001
      ?c uploaded) = [new] \<and> id' new = js ''1730000000000'' \<and> timestamp new = 1730000000001"
    by (auto simp: uploaded_def ids)
  moreover have "distinct (map id' (iterations (app (run scenario))))"
    using t d by blast
  ultimately show ?thesis
    using h d by (simp add: run_scenario ids)
qed

text \<open>
  C8 as stated fails: when the clock returns the same reading at two generations, the
  second iteration gets the id of the first.
\<close>

theorem iteration_id_not_fresh:
  "\<not> distinct (map id' (iterations (app (run same_clock))))"
  by (simp add: run_same_clock)

lemma offered_from_append:
  "offered_from w (evs @ evs') \<longleftrightarrow> offered_from w evs \<and> offered_from (foldl step w evs) evs'"
  by (induction w evs rule: offered_from.induct) simp_all

lemma offered_snoc:
  "offered (evs @ [e]) \<longleftrightarrow> offered evs \<and> offered_from (run evs) [e]"
  by (simp add: offered_def run_def offered_from_append)

lemma edges_Domain: "fst ` set (parent_edges its) \<subseteq> set (map id' its)"
  by (induction its) (auto split: option.splits)

lemma edges_Range:
  "parents_older its \<Longrightarrow> snd ` set (parent_edges its) \<subseteq> insert (js ''source'') (set (map id' its))"
  by (induction its) (auto split: option.splits)

lemma rtrancl_Range: "(x, y) \<in> r\<^sup>* \<Longrightarrow> x = y \<or> y \<in> snd ` r"
  by (induction rule: rtrancl_induct) force+

lemma forest_insert:
  assumes "acyclic r" and "single_valued r"
    and "a \<notin> fst ` r" and "a \<notin> snd ` r" and "b \<noteq> a"
  shows "acyclic (insert (a, b) r) \<and> single_valued (insert (a, b) r)"
proof
  have "(b, a) \<notin> r\<^sup>*"
  proof
    assume "(b, a) \<in> r\<^sup>*"
    then have "b = a \<or> a \<in> snd ` r"
      by (rule rtrancl_Range)
    then show False
      using assms(4,5) by blast
  qed
  then show "acyclic (insert (a, b) r)"
    using assms(1) by simp
  have "(a, c) \<notin> r" for c
    using assms(3) by force
  then show "single_valued (insert (a, b) r)"
    using assms(2) unfolding single_valued_def by blast
qed

lemma edges_forest:
  assumes "parents_older its" and "distinct (map id' its)" and "js ''source'' \<notin> set (map id' its)"
  shows "acyclic (set (parent_edges its)) \<and> single_valued (set (parent_edges its))"
  using assms
proof (induction its)
  case Nil
  have "acyclic ({} :: (jsstring \<times> jsstring) set)"
    by (rule acyclicI) simp
  then show ?case by simp
next
  case (Cons i older)
  define src where "src = js ''source''"
  let ?r = "set (parent_edges older)"
  note no_src = Cons.prems(3) [folded src_def]
  have older: "parents_older older" "distinct (map id' older)" "src \<notin> set (map id' older)"
    using Cons.prems(1,2) no_src by auto
  then have IH: "acyclic ?r \<and> single_valued ?r"
    unfolding src_def by (rule Cons.IH)
  show ?case
  proof (cases "parentId i")
    case None
    then show ?thesis using IH by simp
  next
    case (Some p)
    have new: "id' i \<notin> set (map id' older)" "id' i \<noteq> src"
      using Cons.prems(2) no_src by auto
    have p: "p = src \<or> p \<in> set (map id' older)"
      using Cons.prems(1) Some unfolding src_def by simp
    have "snd ` ?r \<subseteq> insert src (set (map id' older))"
      unfolding src_def using older(1) by (rule edges_Range)
    then have ran: "id' i \<notin> snd ` ?r"
      using new by blast
    have "fst ` ?r \<subseteq> set (map id' older)"
      by (rule edges_Domain)
    then have dom: "id' i \<notin> fst ` ?r"
      using new(1) by blast
    have neq: "p \<noteq> id' i"
      using p new by blast
    from IH have "acyclic ?r" and "single_valued ?r"
      by simp_all
    then have "acyclic (insert (id' i, p) ?r) \<and> single_valued (insert (id' i, p) ?r)"
      using dom ran neq by (rule forest_insert)
    then show ?thesis
      using Some by (simp del: acyclic_insert)
  qed
qed

lemma ids_not_source: "js ''source'' \<notin> set (map id' (iterations (app (run evs))))"
proof
  assume "js ''source'' \<in> set (map id' (iterations (app (run evs))))"
  moreover have "set (map id' (iterations (app (run evs)))) \<subseteq> toString ` set (clock_readings evs)"
    using run_ids [of evs] by (rule conjunct1)
  ultimately have "js ''source'' \<in> toString ` set (clock_readings evs)"
    by (rule rev_subsetD)
  then obtain t where "js ''source'' = toString t"
    by (rule imageE)
  then show False
    using toString_not_source [of t] by simp
qed

lemma id_not_absent: "x \<notin> set (map id' its) \<Longrightarrow> i \<in> set its \<Longrightarrow> id' i \<noteq> x"
  by auto

lemma source_present_step:
  assumes "activeId (app w) = Some (js ''source'') \<longrightarrow> sourceImage (app w) \<noteq> None"
    and "js ''source'' \<notin> set (map id' (iterations (app w)))"
    and "offered_from w [e]"
  shows "activeId (app (step w e)) = Some (js ''source'') \<longrightarrow> sourceImage (app (step w e)) \<noteq> None"
proof (cases e)
  case (Upload dataUrl)
  then show ?thesis by (simp add: onload_def)
next
  case ClearSource
  show ?thesis
  proof (cases "iterations (app w)")
    case Nil
    then show ?thesis using ClearSource by (simp add: clearSourceImage_def)
  next
    case (Cons i older)
    then have "i \<in> set (iterations (app w))"
      by simp
    with assms(2) have "id' i \<noteq> js ''source''"
      by (rule id_not_absent)
    then show ?thesis
      using ClearSource Cons by (simp add: clearSourceImage_def)
  qed
next
  case SelectSource
  then show ?thesis
    using assms(3) by (auto simp: truthy_def split: option.splits)
next
  case (SelectIteration k)
  show ?thesis
  proof (cases "index (iterations (app w)) k")
    case None
    then show ?thesis using assms(1) SelectIteration by simp
  next
    case (Some i)
    then have "i \<in> set (iterations (app w))"
      by (rule index_Some_in)
    with assms(2) have "id' i \<noteq> js ''source''"
      by (rule id_not_absent)
    then show ?thesis
      using SelectIteration Some by simp
  qed
next
  case (SetPrompt p)
  then show ?thesis using assms(1) by simp
next
  case Generate
  obtain s' r where st: "handleGenerate_start (app w) = (s', r)"
    by (cases "handleGenerate_start (app w)")
  from start_cases [OF st] have "sourceImage s' = sourceImage (app w)" "activeId s' = activeId (app w)"
    by (simp_all add: store_def)
  then show ?thesis
    using assms(1) Generate st by (cases r) simp_all
next
  case (Settle k api t1 t2)
  show ?thesis
  proof (cases "index (inflight w) k")
    case None
    then show ?thesis using assms(1) Settle by simp
  next
    case (Some c)
    let ?s = "handleGenerate_finish api t1 t2 c (app w)"
    from finish_cases [of api c t1 t2 "app w"]
    have "activeId ?s = Some (toString t1) \<or> store ?s = store (app w)"
      by blast
    then have "activeId ?s = Some (js ''source'') \<longrightarrow> sourceImage ?s \<noteq> None"
    proof
      assume "activeId ?s = Some (toString t1)"
      then show ?thesis by (simp add: toString_not_source)
    next
      assume "store ?s = store (app w)"
      then have "activeId ?s = activeId (app w)" "sourceImage ?s = sourceImage (app w)"
        by (simp_all add: store_def)
      then show ?thesis using assms(1) by simp
    qed
    then show ?thesis
      using Settle Some by simp
  qed
qed

lemma source_present_run:
  "offered evs \<Longrightarrow>
   activeId (app (run evs)) = Some (js ''source'') \<longrightarrow> sourceImage (app (run evs)) \<noteq> None"
proof (induction evs rule: rev_induct)
  case Nil
  show ?case by (simp add: run_def initial_def)
next
  case (snoc e evs)
  then have "offered evs" and e: "offered_from (run evs) [e]"
    by (simp_all add: offered_snoc)
  then have "activeId (app (run evs)) = Some (js ''source'') \<longrightarrow> sourceImage (app (run evs)) \<noteq> None"
    using snoc.IH by simp
  then have "activeId (app (step (run evs) e)) = Some (js ''source'') \<longrightarrow>
      sourceImage (app (step (run evs) e)) \<noteq> None"
    using ids_not_source [of evs] e by (rule source_present_step)
  then show ?case
    by (simp only: run_snoc)
qed

lemma same_clock_iterations:
  "iterations (app (run same_clock)) =
     [\<lparr>id' = toString 1730000000000, imageUrl = png_url, prompt = js ''Make it blue'',
       timestamp = 1730000000000, parentId = Some (toString 1730000000000)\<rparr>,
      \<lparr>id' = toString 1730000000000, imageUrl = png_url, prompt = js ''Add plants'',
       timestamp = 1730000000000, parentId = Some (js ''source'')\<rparr>]"
  by (simp add: same_clock_def evaluate)

lemma run_clear_in_flight:
  "run clear_in_flight =
     \<lparr>app = \<lparr>sourceImage = None, iterations = [], activeId = None,
              prompt' = js ''Add plants'', isGenerating = True, error = None\<rparr>,
      inflight = [\<lparr>callPrompt = js ''Add plants'', callBaseImage = Some png_url,
                   callActiveId = Some (js ''source'')\<rparr>]\<rparr>"
  by (simp add: clear_in_flight_def evaluate clearSourceImage_def)

lemma run_back_to_source:
  "app (run back_to_source) =
     \<lparr>sourceImage = Some png_url,
      iterations =
        [\<lparr>id' = toString 1730000060000, imageUrl = png_url, prompt = js ''Make it blue'',
          timestamp = 1730000060001, parentId = Some (toString 1730000000000)\<rparr>,
         \<lparr>id' = toString 1730000000000, imageUrl = png_url, prompt = js ''Add plants'',
          timestamp = 1730000000001, parentId = Some (js ''source'')\<rparr>],
      activeId = Some (js ''source''), prompt' = js ''Make it blue'',
      isGenerating = False, error = None\<rparr>"
  by (simp add: back_to_source_def run_snoc run_scenario)

lemma offered_back_to_source: "offered back_to_source"
proof -
  have "offered scenario"
    by (simp add: offered_def scenario_def)
  moreover have "offered_from (run scenario) [SelectSource]"
    by (simp add: run_scenario truthy_def png_url_not_Nil)
  ultimately show ?thesis
    by (simp only: back_to_source_def offered_snoc)
qed


text \<open>
  C7, as amended: in every state a run reaches, an active selection is the source or
  the id of an iteration of the list, every parent reference names the source or the id
  of an iteration further back in the list, and no id is \<open>'source'\<close>.  When the source
  thumbnail is clicked only while it is shown, a source image is set while the source is
  selected, so a call that takes \<open>'source'\<close> as parent begins with the source image
  there.  When the clock readings at which calls settle are pairwise distinct, the ids
  are pairwise distinct and the parent references, as edges between ids, are acyclic
  and give every iteration at most one parent: a forest.
\<close>

theorem lineage_forest:
  "(\<forall>a. activeId (app (run evs)) = Some a \<longrightarrow>
      a = js ''source'' \<or> a \<in> set (map id' (iterations (app (run evs))))) \<and>
   (\<forall>k p. k < length (iterations (app (run evs))) \<and>
      parentId (iterations (app (run evs)) ! k) = Some p \<longrightarrow>
      p = js ''source'' \<or>
      (\<exists>j. k < j \<and> j < length (iterations (app (run evs))) \<and>
           id' (iterations (app (run evs)) ! j) = p)) \<and>
   js ''source'' \<notin> set (map id' (iterations (app (run evs)))) \<and>
   (offered evs \<longrightarrow>
      (activeId (app (run evs)) = Some (js ''source'') \<longrightarrow>
         sourceImage (app (run evs)) \<noteq> None) \<and>
      (\<forall>s1 c. handleGenerate_start (app (run evs)) = (s1, Some c) \<and>
         callActiveId c = Some (js ''source'') \<longrightarrow> sourceImage (app (run evs)) \<noteq> None)) \<and>
   (distinct (clock_readings evs) \<longrightarrow>
      distinct (map id' (iterations (app (run evs)))) \<and>
      acyclic (set (parent_edges (iterations (app (run evs))))) \<and>
      single_valued (set (parent_edges (iterations (app (run evs))))))"
proof -
  let ?s = "app (run evs)"
  have ok: "lineage_ok (run evs)" by (rule lineage_ok_run)
  then have "known (activeId ?s) (iterations ?s)"
    by (simp add: lineage_ok_def)
  then have a: "\<forall>a. activeId ?s = Some a \<longrightarrow> a = js ''source'' \<or> a \<in> set (map id' (iterations ?s))"
    by (simp add: known_def split: option.splits)
  from ok have po: "parents_older (iterations ?s)"
    by (simp add: lineage_ok_def)
  then have b: "\<forall>k p. k < length (iterations ?s) \<and> parentId (iterations ?s ! k) = Some p \<longrightarrow>
      p = js ''source'' \<or> (\<exists>j. k < j \<and> j < length (iterations ?s) \<and> id' (iterations ?s ! j) = p)"
    using parents_older_nth by blast
  have c: "js ''source'' \<notin> set (map id' (iterations ?s))"
    by (rule ids_not_source)
  have d: "offered evs \<longrightarrow>
      (activeId ?s = Some (js ''source'') \<longrightarrow> sourceImage ?s \<noteq> None) \<and>
      (\<forall>s1 c. handleGenerate_start ?s = (s1, Some c) \<and>
         callActiveId c = Some (js ''source'') \<longrightarrow> sourceImage ?s \<noteq> None)"
  proof
    assume "offered evs"
    then have present: "activeId ?s = Some (js ''source'') \<longrightarrow> sourceImage ?s \<noteq> None"
      by (rule source_present_run)
    then have "\<forall>s1 c. handleGenerate_start ?s = (s1, Some c) \<and>
        callActiveId c = Some (js ''source'') \<longrightarrow> sourceImage ?s \<noteq> None"
      by (auto dest: start_cases)
    with present show "(activeId ?s = Some (js ''source'') \<longrightarrow> sourceImage ?s \<noteq> None) \<and>
        (\<forall>s1 c. handleGenerate_start ?s = (s1, Some c) \<and>
           callActiveId c = Some (js ''source'') \<longrightarrow> sourceImage ?s \<noteq> None)"
      by (rule conjI)
  qed
  have e: "distinct (clock_readings evs) \<longrightarrow>
      distinct (map id' (iterations ?s)) \<and>
      acyclic (set (parent_edges (iterations ?s))) \<and>
      single_valued (set (parent_edges (iterations ?s)))"
  proof
    assume "distinct (clock_readings evs)"
    then have ids: "distinct (map id' (iterations ?s))"
      using run_ids [of evs] by blast
    with po have "acyclic (set (parent_edges (iterations ?s))) \<and>
        single_valued (set (parent_edges (iterations ?s)))"
      using c by (rule edges_forest)
    with ids show "distinct (map id' (iterations ?s)) \<and>
        acyclic (set (parent_edges (iterations ?s))) \<and>
        single_valued (set (parent_edges (iterations ?s)))"
      by (rule conjI)
  qed
  show ?thesis
    by (intro conjI) (rule a b c d e)+
qed

theorem lineage_forest_witness:
  "distinct (clock_readings back_to_source) \<and> offered back_to_source \<and>
   activeId (app (run back_to_source)) = Some (js ''source'') \<and>
   sourceImage (app (run back_to_source)) = Some png_url \<and>
   map parentId (iterations (app (run back_to_source))) =
     [Some (toString 1730000000000), Some (js ''source'')] \<and>
   map id' (iterations (app (run back_to_source))) =
     [toString 1730000060000, toString 1730000000000] \<and>
   distinct (map id' (iterations (app (run back_to_source)))) \<and>
   acyclic (set (parent_edges (iterations (app (run back_to_source))))) \<and>
   single_valued (set (parent_edges (iterations (app (run back_to_source)))))"
proof -
  have h1: "distinct (clock_readings back_to_source)"
    by (simp add: back_to_source_def scenario_def)
  have h2: "offered back_to_source"
    by (rule offered_back_to_source)
  note t = lineage_forest [of back_to_source]
  from t h1 have "distinct (map id' (iterations (app (run back_to_source))))"
    and "acyclic (set (parent_edges (iterations (app (run back_to_source)))))"
    and "single_valued (set (parent_edges (iterations (app (run back_to_source)))))"
    by blast+
  moreover from t h2 have "activeId (app (run back_to_source)) = Some (js ''source'') \<longrightarrow>
      sourceImage (app (run back_to_source)) \<noteq> None"
    by blast
  ultimately show ?thesis
    using h1 h2 by (simp add: run_back_to_source del: acyclic_insert)
qed

text \<open>
  C7 as stated fails in two ways.  When the clock returns the same reading at two
  generations, the newer iteration carries its own id as parent, a cycle.  And when the
  source is cleared while a call that took \<open>'source'\<close> as parent is outstanding, the
  iteration is created with that parent although no source image exists then.
\<close>

theorem lineage_cycle:
  "parentId (iterations (app (run same_clock)) ! 0) =
     Some (id' (iterations (app (run same_clock)) ! 0)) \<and>
   \<not> acyclic (set (parent_edges (iterations (app (run same_clock))))) \<and>
   sourceImage (app (run clear_in_flight)) = None \<and>
   map parentId (iterations (app (run
       (clear_in_flight @ [Settle 0 png_endpoint 1730000000000 1730000000001])))) =
     [Some (js ''source'')]"
proof -
  let ?t = "toString 1730000000000"
  have "(?t, ?t) \<in> set (parent_edges (iterations (app (run same_clock))))"
    by (simp add: same_clock_iterations)
  then have "(?t, ?t) \<in> (set (parent_edges (iterations (app (run same_clock)))))\<^sup>+"
    by (rule r_into_trancl)
  then have "\<not> acyclic (set (parent_edges (iterations (app (run same_clock)))))"
    unfolding acyclic_def by blast
  moreover have "map parentId (iterations (app (run
       (clear_in_flight @ [Settle 0 png_endpoint 1730000000000 1730000000001])))) =
     [Some (js ''source'')]"
    unfolding run_snoc run_clear_in_flight
    by (simp add: finish_success png_image truthy_def js_Nil)
  ultimately show ?thesis
    by (simp add: same_clock_iterations run_clear_in_flight)
qed


lemma run_activeId_not_empty: "activeId (app (run evs)) \<noteq> Some []"
proof
  assume a: "activeId (app (run evs)) = Some []"
  have "known (activeId (app (run evs))) (iterations (app (run evs)))"
    using lineage_ok_run [of evs] by (simp add: lineage_ok_def)
  then have "[] = js ''source'' \<or> [] \<in> set (map id' (iterations (app (run evs))))"
    using a by (simp add: known_def)
  then have "[] \<in> toString ` set (clock_readings evs)"
    using run_ids [of evs] by (auto simp: js_def)
  then show False
    using toString_not_Nil by (metis imageE)
qed

text \<open>
  C1: a successful generation, started in a state a run has reached, puts exactly one
  new iteration in front of the list as it is when the call settles, selects its id, and
  gives it as parent the selection that was active when the call began (none when
  nothing was selected).
\<close>

theorem handleGenerate_success:
  assumes "handleGenerate_start (app (run evs)) = (s1, Some c)"
    and "snd (generateImage api (callPrompt c) (callBaseImage c)) = Inr url"
  shows "\<exists>new. iterations (handleGenerate_finish api t1 t2 c s) = new # iterations s \<and>
           length (iterations (handleGenerate_finish api t1 t2 c s)) = Suc (length (iterations s)) \<and>
           activeId (handleGenerate_finish api t1 t2 c s) = Some (id' new) \<and>
           parentId new = activeId (app (run evs)) \<and> imageUrl new = url"
proof -
  have c: "callActiveId c = activeId (app (run evs))"
    using assms(1) by (auto simp: handleGenerate_start_def split: if_splits)
  have "\<not> truthy (activeId (app (run evs))) \<Longrightarrow> activeId (app (run evs)) = None"
    using run_activeId_not_empty [of evs]
    by (cases "activeId (app (run evs))") (simp_all add: truthy_def)
  then show ?thesis
    using assms(2) c by (auto simp: handleGenerate_finish_def)
qed

theorem handleGenerate_success_witness:
  "handleGenerate_start (app (run [Upload png_url, SetPrompt (js ''Add plants'')])) =
     (uploaded\<lparr>isGenerating := True, error := None\<rparr>,
      Some \<lparr>callPrompt = js ''Add plants'', callBaseImage = Some png_url,
            callActiveId = Some (js ''source'')\<rparr>) \<and>
   snd (generateImage png_endpoint (js ''Add plants'') (Some png_url)) = Inr png_url \<and>
   (\<exists>new. iterations (handleGenerate_finish png_endpoint 1730000000000 1730000000001
               \<lparr>callPrompt = js ''Add plants'', callBaseImage = Some png_url,
                callActiveId = Some (js ''source'')\<rparr> (uploaded\<lparr>isGenerating := True, error := None\<rparr>)) = [new] \<and>
          activeId (handleGenerate_finish png_endpoint 1730000000000 1730000000001
               \<lparr>callPrompt = js ''Add plants'', callBaseImage = Some png_url,
                callActiveId = Some (js ''source'')\<rparr> (uploaded\<lparr>isGenerating := True, error := None\<rparr>)) = Some (id' new) \<and>
          parentId new = Some (js ''source'') \<and> imageUrl new = png_url)"
proof -
  let ?c = "\<lparr>callPrompt = js ''Add plants'', callBaseImage = Some png_url,
            callActiveId = Some (js ''source'')\<rparr>"
  have h1: "handleGenerate_start (app (run [Upload png_url, SetPrompt (js ''Add plants'')])) =
     (uploaded\<lparr>isGenerating := True, error := None\<rparr>, Some ?c)"
    using start_uploaded by (simp only: uploaded_run)
  have h2: "snd (generateImage png_endpoint (callPrompt ?c) (callBaseImage ?c)) = Inr png_url"
    by (simp add: png_image)
  have a: "activeId (app (run [Upload png_url, SetPrompt (js ''Add plants'')])) = Some (js ''source'')"
    by (simp add: uploaded_run [symmetric] uploaded_def)
  have i: "iterations (uploaded\<lparr>isGenerating := True, error := None\<rparr>) = []"
    by (simp add: uploaded_def)
  from handleGenerate_success [OF h1 h2, of 1730000000000 1730000000001
        "uploaded\<lparr>isGenerating := True, error := None\<rparr>"]
  obtain new where
    "iterations (handleGenerate_finish png_endpoint 1730000000000 1730000000001 ?c
        (uploaded\<lparr>isGenerating := True, error := None\<rparr>)) = [new]"
    "activeId (handleGenerate_finish png_endpoint 1730000000000 1730000000001 ?c
        (uploaded\<lparr>isGenerating := True, error := None\<rparr>)) = Some (id' new)"
    "parentId new = Some (js ''source'')" "imageUrl new = png_url"
    by (auto simp: a i)
  then show ?thesis
    using h1 h2 by auto
qed

end
